theory Spec2Isabelle
  imports Main "HOL-Library.Word"
begin

section \<open>The CommitmentChain contract\<close>

text \<open>
  A shallow embedding of the Solidity contract \<^verbatim>\<open>CommitmentChain\<close>. Storage is a
  record that every entry point takes and returns; a \<^verbatim>\<open>require\<close> that fails, a custom
  error of an inherited modifier and an arithmetic panic are values of \<open>error\<close>, and a
  call that fails returns \<open>Inl\<close> and no storage, as a reverted transaction leaves none.
  \<^verbatim>\<open>uint256\<close> values are natural numbers with the checked increment of Solidity 0.8
  written out; addresses are 160-bit words; \<^verbatim>\<open>msg.sender\<close> and \<^verbatim>\<open>block.timestamp\<close>
  are the first two arguments of each mutating entry point. Modifiers run in the order
  in which the source lists them. The modifiers that the source has inside comments
  are not part of the compiled contract and so are not part of the model.
  \<^verbatim>\<open>nonReentrant\<close> never fires, since no entry point calls out of the contract, and
  \<^verbatim>\<open>console.log\<close> has no effect on storage. Replacing the implementation through the
  proxy is outside the model.
\<close>

subsection \<open>Data\<close>

type_synonym address = "160 word"

datatype role = DEFAULT_ADMIN_ROLE | POLICE_ROLE | LAWYER_ROLE | VERIFIER_ROLE | EMERGENCY_ROLE

text \<open>The struct \<^verbatim>\<open>Commitment\<close>; its field \<^verbatim>\<open>id\<close> is \<open>idC\<close> here.\<close>

record Commitment =
  idC :: nat
  initiator :: address
  signer :: address
  witnesses :: "address list"
  fileHash :: string
  createdAt :: nat
  initiatorSigned :: bool
  signerSigned :: bool
  witnessSignedCount :: nat
  isCompleted :: bool
  isFrozen :: bool
  isVerified :: bool

text \<open>The events that the contract declares and emits, with their arguments.\<close>

datatype event =
    CommitmentCreated nat address address string nat
  | CommitmentSigned nat address string nat
  | CommitmentCompleted nat nat
  | CommitmentFrozen nat address nat
  | CommitmentUnfrozen nat address nat
  | CommitmentVerified nat address nat

datatype error =
    InvalidAdminAddress
  | InvalidInitialization
  | FileHashEmpty
  | InvalidSignerAddress
  | SignerCannotBeInitiator
  | InvalidWitnessAddress
  | WitnessCannotBeSigner
  | DuplicateWitnessAddress
  | InvalidCommitmentId
  | CommitmentIsFrozen
  | NotTheDesignatedSigner
  | AlreadySigned
  | InitiatorMustSignFirst
  | NotADesignatedWitness
  | AlreadyFrozen
  | NotFrozen
  | AlreadyVerified
  | NotCompletedYet
  | EnforcedPause
  | ExpectedPause
  | AccessControlUnauthorizedAccount address role
  | ArithmeticOverflow

text \<open>
  Storage: the counter, the two mappings (a Solidity mapping holds the zero value at
  every key never written), the pause flag and the role table of the inherited
  contracts, the flag of \<^verbatim>\<open>initializer\<close>, and the log of emitted events.
\<close>

record chain =
  initialized :: bool
  commitmentIdCounter :: nat
  commitments :: "nat \<Rightarrow> Commitment"
  witnessSigned :: "nat \<Rightarrow> address \<Rightarrow> bool"
  paused :: bool
  roles :: "role \<Rightarrow> address \<Rightarrow> bool"
  events :: "event list"

definition MAX_UINT256 :: nat where
  "MAX_UINT256 = 2 ^ 256 - 1"

text \<open>The zero value of the struct, which an unwritten key of \<^verbatim>\<open>commitments\<close> holds.\<close>

definition zeroCommitment :: Commitment where
  "zeroCommitment =
     \<lparr>idC = 0, initiator = 0, signer = 0, witnesses = [], fileHash = [], createdAt = 0,
      initiatorSigned = False, signerSigned = False, witnessSignedCount = 0,
      isCompleted = False, isFrozen = False, isVerified = False\<rparr>"

text \<open>The storage of a proxy on which nothing has run yet.\<close>

definition deployed :: chain where
  "deployed =
     \<lparr>initialized = False, commitmentIdCounter = 0, commitments = (\<lambda>_. zeroCommitment),
      witnessSigned = (\<lambda>_ _. False), paused = False, roles = (\<lambda>_ _. False), events = []\<rparr>"

definition hasRole :: "role \<Rightarrow> address \<Rightarrow> chain \<Rightarrow> bool" where
  "hasRole r a s = roles s r a"

subsection \<open>Modifiers\<close>

definition notFrozen :: "nat \<Rightarrow> chain \<Rightarrow> bool" where
  "notFrozen cid s = (\<not> isFrozen (commitments s cid))"

definition validCommitmentId :: "nat \<Rightarrow> chain \<Rightarrow> bool" where
  "validCommitmentId cid s = (cid > 0 \<and> cid \<le> commitmentIdCounter s)"

subsection \<open>Initialisation\<close>

definition initialize :: "address \<Rightarrow> chain \<Rightarrow> error + chain" where
  "initialize admin s =
     (if initialized s then Inl InvalidInitialization
      else if admin = 0 then Inl InvalidAdminAddress
      else Inr (s\<lparr>initialized := True,
                  roles := (roles s)(DEFAULT_ADMIN_ROLE := (roles s DEFAULT_ADMIN_ROLE)(admin := True)),
                  commitmentIdCounter := 0\<rparr>))"

subsection \<open>Internal helpers\<close>

text \<open>The loop of \<^verbatim>\<open>_isWitness\<close> over the stored witness array.\<close>

fun isWitnessIn :: "address list \<Rightarrow> address \<Rightarrow> bool" where
  "isWitnessIn [] a = False"
| "isWitnessIn (w # ws) a = (if w = a then True else isWitnessIn ws a)"

definition isWitness :: "nat \<Rightarrow> address \<Rightarrow> chain \<Rightarrow> bool" where
  "isWitness cid a s = isWitnessIn (witnesses (commitments s cid)) a"

definition checkCompletion :: "nat \<Rightarrow> nat \<Rightarrow> chain \<Rightarrow> chain" where
  "checkCompletion cid now s =
     (let c = commitments s cid in
      if initiatorSigned c \<and> signerSigned c \<and> witnessSignedCount c = length (witnesses c)
      then s\<lparr>commitments := (commitments s)(cid := c\<lparr>isCompleted := True\<rparr>),
             events := events s @ [CommitmentCompleted cid now]\<rparr>
      else s)"

subsection \<open>Creating a commitment\<close>

text \<open>The inner loop of the witness check: \<open>w\<close> against every later entry.\<close>

fun checkDuplicate :: "address \<Rightarrow> address list \<Rightarrow> error option" where
  "checkDuplicate w [] = None"
| "checkDuplicate w (x # xs) =
     (if w = x then Some DuplicateWitnessAddress else checkDuplicate w xs)"

text \<open>
  The outer loop: for each witness in turn the zero-address check, the check against the
  signer, then the inner loop. The check against the caller and the check of the
  lawyer role are inside comments in the source.
\<close>

fun checkWitnesses :: "address \<Rightarrow> address list \<Rightarrow> error option" where
  "checkWitnesses sg [] = None"
| "checkWitnesses sg (w # ws) =
     (if w = 0 then Some InvalidWitnessAddress
      else if w = sg then Some WitnessCannotBeSigner
      else (case checkDuplicate w ws of
              Some e \<Rightarrow> Some e
            | None \<Rightarrow> checkWitnesses sg ws))"

definition createCommitment ::
  "address \<Rightarrow> nat \<Rightarrow> string \<Rightarrow> address \<Rightarrow> address list \<Rightarrow> chain \<Rightarrow> error + (nat \<times> chain)" where
  "createCommitment sender now fh sg ws s =
     (if \<not> length fh > 0 then Inl FileHashEmpty
      else if sg = 0 then Inl InvalidSignerAddress
      else if sg = sender then Inl SignerCannotBeInitiator
      else (case checkWitnesses sg ws of
              Some e \<Rightarrow> Inl e
            | None \<Rightarrow>
                if commitmentIdCounter s = MAX_UINT256 then Inl ArithmeticOverflow
                else
                  let newCommitmentId = commitmentIdCounter s + 1;
                      commitment =
                        \<lparr>idC = newCommitmentId, initiator = sender, signer = sg,
                         witnesses = ws, fileHash = fh, createdAt = now,
                         initiatorSigned = True, signerSigned = False,
                         witnessSignedCount = 0, isCompleted = False,
                         isFrozen = False, isVerified = False\<rparr>;
                      s1 = s\<lparr>commitmentIdCounter := newCommitmentId,
                             commitments := (commitments s)(newCommitmentId := commitment),
                             events := events s @
                               [CommitmentCreated newCommitmentId sender sg fh now,
                                CommitmentSigned newCommitmentId sender ''initiator'' now]\<rparr>
                  in Inr (newCommitmentId, checkCompletion newCommitmentId now s1)))"

subsection \<open>Signing\<close>

definition signAsSigner :: "address \<Rightarrow> nat \<Rightarrow> nat \<Rightarrow> chain \<Rightarrow> error + chain" where
  "signAsSigner sender now cid s =
     (if paused s then Inl EnforcedPause
      else if \<not> validCommitmentId cid s then Inl InvalidCommitmentId
      else if \<not> notFrozen cid s then Inl CommitmentIsFrozen
      else
        let commitment = commitments s cid in
        if sender \<noteq> signer commitment then Inl NotTheDesignatedSigner
        else if signerSigned commitment then Inl AlreadySigned
        else if \<not> initiatorSigned commitment then Inl InitiatorMustSignFirst
        else Inr (checkCompletion cid now
               (s\<lparr>commitments := (commitments s)(cid := commitment\<lparr>signerSigned := True\<rparr>),
                  events := events s @ [CommitmentSigned cid sender ''signer'' now]\<rparr>)))"

definition signAsWitness :: "address \<Rightarrow> nat \<Rightarrow> nat \<Rightarrow> chain \<Rightarrow> error + chain" where
  "signAsWitness sender now cid s =
     (if \<not> validCommitmentId cid s then Inl InvalidCommitmentId
      else if \<not> notFrozen cid s then Inl CommitmentIsFrozen
      else
        let commitment = commitments s cid in
        if \<not> initiatorSigned commitment then Inl InitiatorMustSignFirst
        else if \<not> isWitness cid sender s then Inl NotADesignatedWitness
        else if witnessSigned s cid sender then Inl AlreadySigned
        else if witnessSignedCount commitment = MAX_UINT256 then Inl ArithmeticOverflow
        else Inr (checkCompletion cid now
               (s\<lparr>witnessSigned := (witnessSigned s)(cid := (witnessSigned s cid)(sender := True)),
                  commitments := (commitments s)
                    (cid := commitment\<lparr>witnessSignedCount := witnessSignedCount commitment + 1\<rparr>),
                  events := events s @ [CommitmentSigned cid sender ''witness'' now]\<rparr>)))"

subsection \<open>Administrative entry points\<close>

definition freezeCommitment :: "address \<Rightarrow> nat \<Rightarrow> nat \<Rightarrow> chain \<Rightarrow> error + chain" where
  "freezeCommitment sender now cid s =
     (if \<not> validCommitmentId cid s then Inl InvalidCommitmentId
      else
        let commitment = commitments s cid in
        if isFrozen commitment then Inl AlreadyFrozen
        else Inr (s\<lparr>commitments := (commitments s)(cid := commitment\<lparr>isFrozen := True\<rparr>),
                    events := events s @ [CommitmentFrozen cid sender now]\<rparr>))"

definition unfreezeCommitment :: "address \<Rightarrow> nat \<Rightarrow> nat \<Rightarrow> chain \<Rightarrow> error + chain" where
  "unfreezeCommitment sender now cid s =
     (if \<not> validCommitmentId cid s then Inl InvalidCommitmentId
      else
        let commitment = commitments s cid in
        if \<not> isFrozen commitment then Inl NotFrozen
        else Inr (s\<lparr>commitments := (commitments s)(cid := commitment\<lparr>isFrozen := False\<rparr>),
                    events := events s @ [CommitmentUnfrozen cid sender now]\<rparr>))"

definition verifyCommitment :: "address \<Rightarrow> nat \<Rightarrow> nat \<Rightarrow> chain \<Rightarrow> error + chain" where
  "verifyCommitment sender now cid s =
     (if \<not> validCommitmentId cid s then Inl InvalidCommitmentId
      else
        let commitment = commitments s cid in
        if isVerified commitment then Inl AlreadyVerified
        else if \<not> isCompleted commitment then Inl NotCompletedYet
        else Inr (s\<lparr>commitments := (commitments s)(cid := commitment\<lparr>isVerified := True\<rparr>),
                    events := events s @ [CommitmentVerified cid sender now]\<rparr>))"

text \<open>
  \<^verbatim>\<open>pause\<close> and \<^verbatim>\<open>unpause\<close>: the role check of \<^verbatim>\<open>onlyRole\<close> from the source, then the
  inherited \<^verbatim>\<open>_pause\<close> and \<^verbatim>\<open>_unpause\<close>, which require the flag to be clear and set
  respectively and then write it.
\<close>

definition pause :: "address \<Rightarrow> chain \<Rightarrow> error + chain" where
  "pause sender s =
     (if \<not> hasRole EMERGENCY_ROLE sender s
        then Inl (AccessControlUnauthorizedAccount sender EMERGENCY_ROLE)
      else if paused s then Inl EnforcedPause
      else Inr (s\<lparr>paused := True\<rparr>))"

definition unpause :: "address \<Rightarrow> chain \<Rightarrow> error + chain" where
  "unpause sender s =
     (if \<not> hasRole DEFAULT_ADMIN_ROLE sender s
        then Inl (AccessControlUnauthorizedAccount sender DEFAULT_ADMIN_ROLE)
      else if \<not> paused s then Inl ExpectedPause
      else Inr (s\<lparr>paused := False\<rparr>))"

text \<open>
  Modelled from the spec: \<^verbatim>\<open>grantRole\<close> and \<^verbatim>\<open>revokeRole\<close> are inherited from the
  access-control base contract, whose source is not in the repository. The
  specification says of the assignment of capabilities that it is
  "mutable only by an Administrator", who "grants/revokes all capabilities".
\<close>

definition grantRole :: "address \<Rightarrow> role \<Rightarrow> address \<Rightarrow> chain \<Rightarrow> error + chain" where
  "grantRole sender r a s =
     (if \<not> hasRole DEFAULT_ADMIN_ROLE sender s
        then Inl (AccessControlUnauthorizedAccount sender DEFAULT_ADMIN_ROLE)
      else Inr (s\<lparr>roles := (roles s)(r := (roles s r)(a := True))\<rparr>))"

definition revokeRole :: "address \<Rightarrow> role \<Rightarrow> address \<Rightarrow> chain \<Rightarrow> error + chain" where
  "revokeRole sender r a s =
     (if \<not> hasRole DEFAULT_ADMIN_ROLE sender s
        then Inl (AccessControlUnauthorizedAccount sender DEFAULT_ADMIN_ROLE)
      else Inr (s\<lparr>roles := (roles s)(r := (roles s r)(a := False))\<rparr>))"

subsection \<open>Queries\<close>

definition getCommitment :: "nat \<Rightarrow> chain \<Rightarrow> error + Commitment" where
  "getCommitment cid s =
     (if \<not> validCommitmentId cid s then Inl InvalidCommitmentId
      else Inr (commitments s cid))"

definition hasWitnessSigned :: "nat \<Rightarrow> address \<Rightarrow> chain \<Rightarrow> error + bool" where
  "hasWitnessSigned cid w s =
     (if \<not> validCommitmentId cid s then Inl InvalidCommitmentId
      else Inr (witnessSigned s cid w))"

definition getRole :: "nat \<Rightarrow> address \<Rightarrow> chain \<Rightarrow> error + string" where
  "getRole cid a s =
     (if \<not> validCommitmentId cid s then Inl InvalidCommitmentId
      else
        let commitment = commitments s cid in
        if a = initiator commitment then Inr ''initiator''
        else if a = signer commitment then Inr ''signer''
        else if isWitness cid a s then Inr ''witness''
        else Inr ''none'')"

definition getWitnessCount :: "nat \<Rightarrow> chain \<Rightarrow> error + nat" where
  "getWitnessCount cid s =
     (if \<not> validCommitmentId cid s then Inl InvalidCommitmentId
      else Inr (length (witnesses (commitments s cid))))"

definition commitmentCount :: "chain \<Rightarrow> nat" where
  "commitmentCount s = commitmentIdCounter s"

subsection \<open>Transactions and runs\<close>

text \<open>
  A transaction is a caller, a block timestamp and a call of one public entry point.
  A transaction that fails is reverted: the storage after it is the storage before it.
\<close>

datatype call =
    Initialize address
  | CreateCommitment string address "address list"
  | SignAsSigner nat
  | SignAsWitness nat
  | FreezeCommitment nat
  | UnfreezeCommitment nat
  | VerifyCommitment nat
  | Pause
  | Unpause
  | GrantRole role address
  | RevokeRole role address

type_synonym tx = "address \<times> nat \<times> call"

fun exec :: "address \<Rightarrow> nat \<Rightarrow> call \<Rightarrow> chain \<Rightarrow> error + chain" where
  "exec sender now (Initialize admin) s = initialize admin s"
| "exec sender now (CreateCommitment fh sg ws) s =
     (case createCommitment sender now fh sg ws s of
        Inl e \<Rightarrow> Inl e
      | Inr (newId, s') \<Rightarrow> Inr s')"
| "exec sender now (SignAsSigner cid) s = signAsSigner sender now cid s"
| "exec sender now (SignAsWitness cid) s = signAsWitness sender now cid s"
| "exec sender now (FreezeCommitment cid) s = freezeCommitment sender now cid s"
| "exec sender now (UnfreezeCommitment cid) s = unfreezeCommitment sender now cid s"
| "exec sender now (VerifyCommitment cid) s = verifyCommitment sender now cid s"
| "exec sender now Pause s = pause sender s"
| "exec sender now Unpause s = unpause sender s"
| "exec sender now (GrantRole r a) s = grantRole sender r a s"
| "exec sender now (RevokeRole r a) s = revokeRole sender r a s"

fun apply_tx :: "tx \<Rightarrow> chain \<Rightarrow> chain" where
  "apply_tx (sender, now, c) s =
     (case exec sender now c s of Inl e \<Rightarrow> s | Inr s' \<Rightarrow> s')"

fun run :: "tx list \<Rightarrow> chain \<Rightarrow> chain" where
  "run [] s = s"
| "run (t # ts) s = run ts (apply_tx t s)"

text \<open>The storage right after the proxy is deployed and initialised with \<open>admin\<close>.\<close>

definition genesis :: "address \<Rightarrow> chain" where
  "genesis admin =
     deployed\<lparr>initialized := True,
              roles := (\<lambda>r a. r = DEFAULT_ADMIN_ROLE \<and> a = admin)\<rparr>"

subsection \<open>Observations on runs\<close>

text \<open>
  The number of \<^verbatim>\<open>CommitmentCompleted\<close> events in a log that carry a given commitment id.
\<close>

fun isCompletedEvent :: "nat \<Rightarrow> event \<Rightarrow> bool" where
  "isCompletedEvent i (CommitmentCompleted j t) = (i = j)"
| "isCompletedEvent i _ = False"

definition completedCount :: "nat \<Rightarrow> event list \<Rightarrow> nat" where
  "completedCount i evs = length (filter (isCompletedEvent i) evs)"

text \<open>
  The condition that \<^verbatim>\<open>_checkCompletion\<close> tests.
\<close>

definition allSigned :: "Commitment \<Rightarrow> bool" where
  "allSigned c = (initiatorSigned c \<and> signerSigned c \<and> witnessSignedCount c = length (witnesses c))"

text \<open>
  Along a run from \<open>s\<close>: how many transactions take \<^verbatim>\<open>isCompleted\<close> of commitment \<open>i\<close>
  from false to true, and whether every such transaction leaves the commitment with all
  signatures present.
\<close>

fun completionFlips :: "nat \<Rightarrow> tx list \<Rightarrow> chain \<Rightarrow> nat" where
  "completionFlips i [] s = 0"
| "completionFlips i (t # ts) s =
     (if \<not> isCompleted (commitments s i) \<and> isCompleted (commitments (apply_tx t s) i) then 1 else 0)
     + completionFlips i ts (apply_tx t s)"

fun flipsJustified :: "nat \<Rightarrow> tx list \<Rightarrow> chain \<Rightarrow> bool" where
  "flipsJustified i [] s = True"
| "flipsJustified i (t # ts) s =
     ((\<not> isCompleted (commitments s i) \<and> isCompleted (commitments (apply_tx t s) i)
         \<longrightarrow> allSigned (commitments (apply_tx t s) i))
      \<and> flipsJustified i ts (apply_tx t s))"

text \<open>
  The ids returned by the successful \<^verbatim>\<open>createCommitment\<close> calls of a run, in order.
\<close>

fun createdIds :: "tx list \<Rightarrow> chain \<Rightarrow> nat list" where
  "createdIds [] s = []"
| "createdIds ((sender, now, c) # ts) s =
     (case c of
        CreateCommitment fh sg ws \<Rightarrow>
          (case createCommitment sender now fh sg ws s of
             Inl e \<Rightarrow> []
           | Inr (newId, s') \<Rightarrow> [newId])
      | _ \<Rightarrow> [])
     @ createdIds ts (apply_tx (sender, now, c) s)"

subsection \<open>The invariant of reachable storage\<close>

text \<open>
  For one commitment, given the signed flags of its witnesses and the number of its
  completion events in the log: completion implies all signatures, the witness list has no
  repetition, the counter is the number of listed witnesses whose flag is set, and the
  completion event has been logged once if the commitment is complete and never otherwise.
\<close>

definition commitment_ok :: "Commitment \<Rightarrow> (address \<Rightarrow> bool) \<Rightarrow> nat \<Rightarrow> bool" where
  "commitment_ok c P n =
     ((isCompleted c \<longrightarrow> allSigned c)
      \<and> distinct (witnesses c)
      \<and> witnessSignedCount c = length (filter P (witnesses c))
      \<and> n = (if isCompleted c then 1 else 0))"

text \<open>
  For one id: the above, the stored id and the signature of the initiator at a valid id,
  and untouched storage at every other id.
\<close>

definition cinv :: "chain \<Rightarrow> nat \<Rightarrow> bool" where
  "cinv s i =
     (commitment_ok (commitments s i) (witnessSigned s i) (completedCount i (events s))
      \<and> (validCommitmentId i s \<longrightarrow> idC (commitments s i) = i \<and> initiatorSigned (commitments s i))
      \<and> (\<not> validCommitmentId i s \<longrightarrow>
            commitments s i = zeroCommitment \<and> (\<forall>a. \<not> witnessSigned s i a)))"

definition wf_chain :: "chain \<Rightarrow> bool" where
  "wf_chain s = (initialized s \<and> (\<forall>i. cinv s i))"

text \<open>
  The order in which storage can only grow: the signature flags, the completion and
  verification flags and the witness counter of one commitment.
\<close>

definition signed_le :: "chain \<Rightarrow> chain \<Rightarrow> nat \<Rightarrow> bool" where
  "signed_le s s' i =
     ((initiatorSigned (commitments s i) \<longrightarrow> initiatorSigned (commitments s' i))
      \<and> (signerSigned (commitments s i) \<longrightarrow> signerSigned (commitments s' i))
      \<and> (\<forall>w. witnessSigned s i w \<longrightarrow> witnessSigned s' i w)
      \<and> (isCompleted (commitments s i) \<longrightarrow> isCompleted (commitments s' i))
      \<and> (isVerified (commitments s i) \<longrightarrow> isVerified (commitments s' i))
      \<and> witnessSignedCount (commitments s i) \<le> witnessSignedCount (commitments s' i))"

subsection \<open>Example runs\<close>

text \<open>
  A commitment with two witnesses that is signed by everyone; a commitment that is
  frozen right after its creation; a registry that is paused by an account to which the
  administrator has granted the emergency role.
\<close>

definition demo_txs :: "tx list" where
  "demo_txs =
     [(2, 10, CreateCommitment ''h'' 3 [4, 5]),
      (3, 11, SignAsSigner 1),
      (4, 12, SignAsWitness 1),
      (5, 13, SignAsWitness 1)]"

definition frozen_txs :: "tx list" where
  "frozen_txs = [(2, 10, CreateCommitment ''h'' 3 [4]), (9, 11, FreezeCommitment 1)]"

definition paused_txs :: "tx list" where
  "paused_txs = [(1, 10, GrantRole EMERGENCY_ROLE 6), (6, 11, Pause)]"

section \<open>Properties of the helpers\<close>

lemmas eval_defs = genesis_def deployed_def createCommitment_def signAsSigner_def signAsWitness_def
  freezeCommitment_def unfreezeCommitment_def verifyCommitment_def pause_def unpause_def grantRole_def
  revokeRole_def checkCompletion_def validCommitmentId_def notFrozen_def isWitness_def hasRole_def
  MAX_UINT256_def initialize_def Let_def allSigned_def zeroCommitment_def
  getCommitment_def hasWitnessSigned_def getRole_def getWitnessCount_def commitmentCount_def

lemma initialize_deployed:
  "admin \<noteq> 0 \<Longrightarrow> initialize admin deployed = Inr (genesis admin)"
  by (simp add: initialize_def deployed_def genesis_def fun_eq_iff)

lemma checkDuplicate_eq:
  "checkDuplicate w xs = (if w \<in> set xs then Some DuplicateWitnessAddress else None)"
  by (induction xs) auto

lemma checkWitnesses_None:
  "checkWitnesses sg ws = None \<longleftrightarrow> 0 \<notin> set ws \<and> sg \<notin> set ws \<and> distinct ws"
  by (induction ws) (auto simp: checkDuplicate_eq split: option.splits if_splits)

lemma isWitnessIn_set: "isWitnessIn ws a \<longleftrightarrow> a \<in> set ws"
  by (induction ws) auto

lemma filter_absent:
  "a \<notin> set ws \<Longrightarrow> filter (\<lambda>x. x = a \<or> P x) ws = filter P ws"
  by (induction ws) auto

lemma filter_upd_length:
  "distinct ws \<Longrightarrow> a \<in> set ws \<Longrightarrow> \<not> P a \<Longrightarrow>
   length (filter (\<lambda>x. x = a \<or> P x) ws) = Suc (length (filter P ws))"
  by (induction ws) (auto simp: filter_absent)

lemma completedCount_append [simp]:
  "completedCount i (evs @ evs') = completedCount i evs + completedCount i evs'"
  by (simp add: completedCount_def)

lemma completedCount_simps [simp]:
  "completedCount i [] = 0"
  "completedCount i (e # evs) = (if isCompletedEvent i e then 1 else 0) + completedCount i evs"
  by (simp_all add: completedCount_def)

text \<open>
  What a successful call has checked and what it has written.
\<close>

lemma signAsSigner_Inr:
  assumes "signAsSigner a t cid s = Inr s'"
  shows "validCommitmentId cid s \<and> \<not> signerSigned (commitments s cid) \<and>
         s' = checkCompletion cid t
           (s\<lparr>commitments := (commitments s)(cid := (commitments s cid)\<lparr>signerSigned := True\<rparr>),
              events := events s @ [CommitmentSigned cid a ''signer'' t]\<rparr>)"
  using assms by (auto simp: signAsSigner_def Let_def split: if_splits)

lemma signAsWitness_Inr:
  assumes "signAsWitness a t cid s = Inr s'"
  shows "validCommitmentId cid s \<and> a \<in> set (witnesses (commitments s cid)) \<and>
         \<not> witnessSigned s cid a \<and>
         s' = checkCompletion cid t
           (s\<lparr>witnessSigned := (witnessSigned s)(cid := (witnessSigned s cid)(a := True)),
              commitments := (commitments s)
                (cid := (commitments s cid)\<lparr>witnessSignedCount := witnessSignedCount (commitments s cid) + 1\<rparr>),
              events := events s @ [CommitmentSigned cid a ''witness'' t]\<rparr>)"
  using assms by (auto simp: signAsWitness_def isWitness_def isWitnessIn_set Let_def split: if_splits)

lemma createCommitment_Inr:
  assumes "createCommitment a t fh sg ws s = Inr (n, s')"
  shows "n = commitmentIdCounter s + 1 \<and> distinct ws \<and>
         s' = s\<lparr>commitmentIdCounter := n,
                commitments := (commitments s)(n :=
                   \<lparr>idC = n, initiator = a, signer = sg,
                    witnesses = ws, fileHash = fh, createdAt = t,
                    initiatorSigned = True, signerSigned = False,
                    witnessSignedCount = 0, isCompleted = False,
                    isFrozen = False, isVerified = False\<rparr>),
                events := events s @
                   [CommitmentCreated n a sg fh t, CommitmentSigned n a ''initiator'' t]\<rparr>"
  using assms
  by (auto simp: createCommitment_def Let_def checkCompletion_def checkWitnesses_None
           split: if_splits option.splits)

text \<open>
  The run of \<open>demo_txs\<close>, evaluated.
\<close>

lemma demo_final:
  "commitments (run demo_txs (genesis 1)) 1 =
     \<lparr>idC = 1, initiator = 2, signer = 3, witnesses = [4, 5], fileHash = ''h'', createdAt = 10,
      initiatorSigned = True, signerSigned = True, witnessSignedCount = 2,
      isCompleted = True, isFrozen = False, isVerified = False\<rparr>"
  "events (run demo_txs (genesis 1)) =
     [CommitmentCreated 1 2 3 ''h'' 10, CommitmentSigned 1 2 ''initiator'' 10,
      CommitmentSigned 1 3 ''signer'' 11, CommitmentSigned 1 4 ''witness'' 12,
      CommitmentSigned 1 5 ''witness'' 13, CommitmentCompleted 1 13]"
  "commitmentIdCounter (run demo_txs (genesis 1)) = 1"
  by (simp_all add: demo_txs_def eval_defs)

section \<open>Every transaction keeps the invariant\<close>

lemma wf_genesis: "wf_chain (genesis admin)"
  by (auto simp add: wf_chain_def cinv_def commitment_ok_def genesis_def deployed_def zeroCommitment_def allSigned_def validCommitmentId_def)

lemma wf_initialize: "wf_chain s \<Longrightarrow> initialize a s = Inr s' \<Longrightarrow> wf_chain s'"
  by (simp add: wf_chain_def initialize_def)

lemma wf_pause: "wf_chain s \<Longrightarrow> pause a s = Inr s' \<Longrightarrow> wf_chain s'"
  by (auto simp add: wf_chain_def pause_def cinv_def validCommitmentId_def split: if_splits)

lemma wf_unpause: "wf_chain s \<Longrightarrow> unpause a s = Inr s' \<Longrightarrow> wf_chain s'"
  by (auto simp add: wf_chain_def unpause_def cinv_def validCommitmentId_def split: if_splits)

lemma wf_grantRole: "wf_chain s \<Longrightarrow> grantRole a r b s = Inr s' \<Longrightarrow> wf_chain s'"
  by (auto simp add: wf_chain_def grantRole_def cinv_def validCommitmentId_def split: if_splits)

lemma wf_revokeRole: "wf_chain s \<Longrightarrow> revokeRole a r b s = Inr s' \<Longrightarrow> wf_chain s'"
  by (auto simp add: wf_chain_def revokeRole_def cinv_def validCommitmentId_def split: if_splits)

lemma cinv_flag_update:
  assumes "cinv s cid" and "validCommitmentId cid s"
    and "s' = s\<lparr>commitments := (commitments s)(cid := c'), events := events s @ [e]\<rparr>"
    and "\<not> isCompletedEvent cid e"
    and "idC c' = idC (commitments s cid)" "initiatorSigned c' = initiatorSigned (commitments s cid)"
    and "signerSigned c' = signerSigned (commitments s cid)"
    and "witnesses c' = witnesses (commitments s cid)"
    and "witnessSignedCount c' = witnessSignedCount (commitments s cid)"
    and "isCompleted c' = isCompleted (commitments s cid)"
  shows "cinv s' cid"
  using assms by (auto simp add: cinv_def commitment_ok_def allSigned_def validCommitmentId_def)

lemma cinv_other:
  assumes "cinv s i" and "i \<noteq> cid"
    and "s' = s\<lparr>commitments := (commitments s)(cid := c'), events := events s @ [e]\<rparr>"
    and "\<not> isCompletedEvent i e"
  shows "cinv s' i"
  using assms by (simp add: cinv_def validCommitmentId_def)

lemma wf_freeze: "wf_chain s \<Longrightarrow> freezeCommitment a t cid s = Inr s' \<Longrightarrow> wf_chain s'"
  unfolding wf_chain_def
proof (intro conjI allI)
  assume h: "initialized s \<and> (\<forall>i. cinv s i)" and f: "freezeCommitment a t cid s = Inr s'"
  from f have v: "validCommitmentId cid s"
    and s': "s' = s\<lparr>commitments := (commitments s)(cid := (commitments s cid)\<lparr>isFrozen := True\<rparr>),
                    events := events s @ [CommitmentFrozen cid a t]\<rparr>"
    by (auto simp: freezeCommitment_def Let_def split: if_splits)
  show "initialized s'" using h s' by simp
  fix i show "cinv s' i"
  proof (cases "i = cid")
    case True
    show ?thesis unfolding True
      by (rule cinv_flag_update[OF _ v s']) (use h in simp_all)
  next
    case False
    show ?thesis by (rule cinv_other[OF _ False s']) (use h in simp_all)
  qed
qed

lemma wf_unfreeze: "wf_chain s \<Longrightarrow> unfreezeCommitment a t cid s = Inr s' \<Longrightarrow> wf_chain s'"
  unfolding wf_chain_def
proof (intro conjI allI)
  assume h: "initialized s \<and> (\<forall>i. cinv s i)" and f: "unfreezeCommitment a t cid s = Inr s'"
  from f have v: "validCommitmentId cid s"
    and s': "s' = s\<lparr>commitments := (commitments s)(cid := (commitments s cid)\<lparr>isFrozen := False\<rparr>),
                    events := events s @ [CommitmentUnfrozen cid a t]\<rparr>"
    by (auto simp: unfreezeCommitment_def Let_def split: if_splits)
  show "initialized s'" using h s' by simp
  fix i show "cinv s' i"
  proof (cases "i = cid")
    case True
    show ?thesis unfolding True
      by (rule cinv_flag_update[OF _ v s']) (use h in simp_all)
  next
    case False
    show ?thesis by (rule cinv_other[OF _ False s']) (use h in simp_all)
  qed
qed

lemma wf_verify: "wf_chain s \<Longrightarrow> verifyCommitment a t cid s = Inr s' \<Longrightarrow> wf_chain s'"
  unfolding wf_chain_def
proof (intro conjI allI)
  assume h: "initialized s \<and> (\<forall>i. cinv s i)" and f: "verifyCommitment a t cid s = Inr s'"
  from f have v: "validCommitmentId cid s"
    and s': "s' = s\<lparr>commitments := (commitments s)(cid := (commitments s cid)\<lparr>isVerified := True\<rparr>),
                    events := events s @ [CommitmentVerified cid a t]\<rparr>"
    by (auto simp: verifyCommitment_def Let_def split: if_splits)
  show "initialized s'" using h s' by simp
  fix i show "cinv s' i"
  proof (cases "i = cid")
    case True
    show ?thesis unfolding True
      by (rule cinv_flag_update[OF _ v s']) (use h in simp_all)
  next
    case False
    show ?thesis by (rule cinv_other[OF _ False s']) (use h in simp_all)
  qed
qed

lemma checkCompletion_other:
  "i \<noteq> cid \<Longrightarrow> cinv (checkCompletion cid now s) i = cinv s i"
  by (simp add: checkCompletion_def Let_def cinv_def validCommitmentId_def)

lemma checkCompletion_initialized [simp]:
  "initialized (checkCompletion cid now s) = initialized s"
  by (simp add: checkCompletion_def Let_def)

lemma checkCompletion_same:
  "cinv s cid \<Longrightarrow> \<not> isCompleted (commitments s cid) \<Longrightarrow> cinv (checkCompletion cid now s) cid"
  by (auto simp add: checkCompletion_def Let_def cinv_def commitment_ok_def allSigned_def
        validCommitmentId_def zeroCommitment_def)

lemma wf_signAsSigner:
  assumes "wf_chain s" and r: "signAsSigner a t cid s = Inr s'"
  shows "wf_chain s'"
proof -
  define s1 where "s1 = s\<lparr>commitments := (commitments s)(cid := (commitments s cid)\<lparr>signerSigned := True\<rparr>),
              events := events s @ [CommitmentSigned cid a ''signer'' t]\<rparr>"
  from signAsSigner_Inr[OF r] have v: "validCommitmentId cid s"
    and ns: "\<not> signerSigned (commitments s cid)" and s': "s' = checkCompletion cid t s1"
    by (simp_all add: s1_def)
  from assms have init: "initialized s" and ci: "\<And>i. cinv s i" by (simp_all add: wf_chain_def)
  have nc: "\<not> isCompleted (commitments s cid)"
    using ci[of cid] ns by (auto simp: cinv_def commitment_ok_def allSigned_def)
  have c1: "cinv s1 cid"
    using ci[of cid] nc v
    by (auto simp: s1_def cinv_def commitment_ok_def allSigned_def validCommitmentId_def)
  have nc1: "\<not> isCompleted (commitments s1 cid)" using nc by (simp add: s1_def)
  have "cinv s' i" for i
  proof (cases "i = cid")
    case True
    then show ?thesis using checkCompletion_same[OF c1 nc1] s' by simp
  next
    case False
    have "cinv s1 i" using ci[of i] False by (simp add: s1_def cinv_def validCommitmentId_def)
    then show ?thesis using checkCompletion_other[OF False] s' by simp
  qed
  moreover have "initialized s'" using init s' by (simp add: s1_def)
  ultimately show ?thesis by (simp add: wf_chain_def)
qed

lemma wf_signAsWitness:
  assumes "wf_chain s" and r: "signAsWitness a t cid s = Inr s'"
  shows "wf_chain s'"
proof -
  define s1 where "s1 = s\<lparr>witnessSigned := (witnessSigned s)(cid := (witnessSigned s cid)(a := True)),
              commitments := (commitments s)
                (cid := (commitments s cid)\<lparr>witnessSignedCount := witnessSignedCount (commitments s cid) + 1\<rparr>),
              events := events s @ [CommitmentSigned cid a ''witness'' t]\<rparr>"
  from signAsWitness_Inr[OF r] have v: "validCommitmentId cid s"
    and mem: "a \<in> set (witnesses (commitments s cid))"
    and ns: "\<not> witnessSigned s cid a" and s': "s' = checkCompletion cid t s1"
    by (simp_all add: s1_def)
  from assms have init: "initialized s" and ci: "\<And>i. cinv s i" by (simp_all add: wf_chain_def)
  have lt: "length (filter (witnessSigned s cid) (witnesses (commitments s cid)))
              < length (witnesses (commitments s cid))"
    using mem ns by (rule length_filter_less)
  have nc: "\<not> isCompleted (commitments s cid)"
    using ci[of cid] lt by (auto simp: cinv_def commitment_ok_def allSigned_def)
  have upd: "(witnessSigned s cid)(a := True) = (\<lambda>x. x = a \<or> witnessSigned s cid x)"
    by (rule ext) simp
  have d: "distinct (witnesses (commitments s cid))"
    using ci[of cid] by (simp add: cinv_def commitment_ok_def)
  have cnt: "length (filter ((witnessSigned s cid)(a := True)) (witnesses (commitments s cid)))
              = Suc (length (filter (witnessSigned s cid) (witnesses (commitments s cid))))"
    unfolding upd using d mem ns by (rule filter_upd_length)
  have c1: "cinv s1 cid"
    using ci[of cid] nc v cnt
    by (simp add: s1_def cinv_def commitment_ok_def allSigned_def validCommitmentId_def)
  have nc1: "\<not> isCompleted (commitments s1 cid)" using nc by (simp add: s1_def)
  have "cinv s' i" for i
  proof (cases "i = cid")
    case True
    then show ?thesis using checkCompletion_same[OF c1 nc1] s' by simp
  next
    case False
    have "cinv s1 i" using ci[of i] False by (simp add: s1_def cinv_def validCommitmentId_def)
    then show ?thesis using checkCompletion_other[OF False] s' by simp
  qed
  moreover have "initialized s'" using init s' by (simp add: s1_def)
  ultimately show ?thesis by (simp add: wf_chain_def)
qed

lemma wf_createCommitment:
  assumes "wf_chain s" and r: "createCommitment a t fh sg ws s = Inr (n, s')"
  shows "wf_chain s'"
proof -
  from createCommitment_Inr[OF r] have n: "n = commitmentIdCounter s + 1" and d: "distinct ws"
    and s': "s' = s\<lparr>commitmentIdCounter := n,
                commitments := (commitments s)(n :=
                   \<lparr>idC = n, initiator = a, signer = sg,
                    witnesses = ws, fileHash = fh, createdAt = t,
                    initiatorSigned = True, signerSigned = False,
                    witnessSignedCount = 0, isCompleted = False,
                    isFrozen = False, isVerified = False\<rparr>),
                events := events s @
                   [CommitmentCreated n a sg fh t, CommitmentSigned n a ''initiator'' t]\<rparr>"
    by simp_all
  from assms have init: "initialized s" and ci: "\<And>i. cinv s i" by (simp_all add: wf_chain_def)
  have "cinv s' i" for i
  proof (cases "i = n")
    case True
    have nv: "\<not> validCommitmentId n s" using n by (simp add: validCommitmentId_def)
    with ci[of n] have z: "commitments s n = zeroCommitment" and w: "\<And>x. \<not> witnessSigned s n x"
      and cc: "completedCount n (events s) = (if isCompleted (commitments s n) then 1 else 0)"
      by (simp_all add: cinv_def commitment_ok_def)
    from cc z have cc0: "completedCount n (events s) = 0" by (simp add: zeroCommitment_def)
    from w have f: "filter (witnessSigned s n) ws = []" by simp
    show ?thesis unfolding True
      using d cc0 f n
      by (simp add: s' cinv_def commitment_ok_def validCommitmentId_def)
  next
    case False
    then show ?thesis using ci[of i] n
      by (auto simp add: s' cinv_def validCommitmentId_def)
  qed
  moreover have "initialized s'" using init s' by simp
  ultimately show ?thesis by (simp add: wf_chain_def)
qed

lemma wf_exec: "wf_chain s \<Longrightarrow> exec a t c s = Inr s' \<Longrightarrow> wf_chain s'"
proof (cases c)
  case (CreateCommitment fh sg ws)
  assume "wf_chain s" "exec a t c s = Inr s'"
  then show ?thesis using CreateCommitment
    by (auto split: sum.splits dest: wf_createCommitment)
qed (auto intro: wf_initialize wf_signAsSigner wf_signAsWitness wf_freeze wf_unfreeze wf_verify
       wf_pause wf_unpause wf_grantRole wf_revokeRole)

lemma wf_apply_tx: "wf_chain s \<Longrightarrow> wf_chain (apply_tx tx s)"
  by (cases tx) (auto split: sum.splits intro: wf_exec)

lemma wf_run: "wf_chain s \<Longrightarrow> wf_chain (run txs s)"
  by (induction txs arbitrary: s) (auto intro: wf_apply_tx)

section \<open>Flags and counters only grow\<close>

lemma signed_le_refl: "signed_le s s i"
  by (simp add: signed_le_def)

lemma signed_le_trans: "signed_le s s' i \<Longrightarrow> signed_le s' s'' i \<Longrightarrow> signed_le s s'' i"
  by (auto simp: signed_le_def)

lemma signed_le_create:
  assumes "wf_chain s" and r: "createCommitment a t fh sg ws s = Inr (n, s')"
  shows "signed_le s s' i"
proof -
  from createCommitment_Inr[OF r] have n: "n = commitmentIdCounter s + 1" by simp
  then have "\<not> validCommitmentId n s" by (simp add: validCommitmentId_def)
  with assms(1) have "commitments s n = zeroCommitment"
    by (simp add: wf_chain_def cinv_def)
  then show ?thesis using createCommitment_Inr[OF r]
    by (cases "i = n") (auto simp: signed_le_def zeroCommitment_def)
qed

lemma signed_le_exec:
  assumes "wf_chain s" and r: "exec a t c s = Inr s'"
  shows "signed_le s s' i"
proof (cases c)
  case (Initialize x)
  then show ?thesis using assms by (simp add: initialize_def wf_chain_def)
next
  case (CreateCommitment fh sg ws)
  then show ?thesis using assms by (auto split: sum.splits intro: signed_le_create)
next
  case (SignAsSigner cid)
  with r have "signAsSigner a t cid s = Inr s'" by simp
  from signAsSigner_Inr[OF this] show ?thesis
    by (auto simp: signed_le_def checkCompletion_def Let_def)
next
  case (SignAsWitness cid)
  with r have "signAsWitness a t cid s = Inr s'" by simp
  from signAsWitness_Inr[OF this] show ?thesis
    by (auto simp: signed_le_def checkCompletion_def Let_def)
next
  case (FreezeCommitment cid)
  then show ?thesis using r
    by (auto simp: freezeCommitment_def signed_le_def Let_def split: if_splits)
next
  case (UnfreezeCommitment cid)
  then show ?thesis using r
    by (auto simp: unfreezeCommitment_def signed_le_def Let_def split: if_splits)
next
  case (VerifyCommitment cid)
  then show ?thesis using r
    by (auto simp: verifyCommitment_def signed_le_def Let_def split: if_splits)
next
  case Pause
  then show ?thesis using r by (auto simp: pause_def signed_le_def split: if_splits)
next
  case Unpause
  then show ?thesis using r by (auto simp: unpause_def signed_le_def split: if_splits)
next
  case (GrantRole x y)
  then show ?thesis using r by (auto simp: grantRole_def signed_le_def split: if_splits)
next
  case (RevokeRole x y)
  then show ?thesis using r by (auto simp: revokeRole_def signed_le_def split: if_splits)
qed

lemma signed_le_apply_tx: "wf_chain s \<Longrightarrow> signed_le s (apply_tx tx s) i"
  by (cases tx) (auto split: sum.splits intro: signed_le_exec signed_le_refl)

lemma signed_le_run: "wf_chain s \<Longrightarrow> signed_le s (run txs s) i"
proof (induction txs arbitrary: s)
  case Nil
  then show ?case by (simp add: signed_le_refl)
next
  case (Cons tx txs)
  have "signed_le s (apply_tx tx s) i" using Cons.prems by (rule signed_le_apply_tx)
  moreover have "signed_le (apply_tx tx s) (run txs (apply_tx tx s)) i"
    using Cons.prems by (intro Cons.IH wf_apply_tx)
  ultimately show ?case using signed_le_trans by simp
qed

lemma count_le_length: "wf_chain s \<Longrightarrow> witnessSignedCount (commitments s i) \<le> length (witnesses (commitments s i))"
  by (simp add: wf_chain_def cinv_def commitment_ok_def)

lemma completionFlips_bound:
  "wf_chain s \<Longrightarrow> completionFlips i txs s \<le> (if isCompleted (commitments s i) then 0 else 1)"
proof (induction txs arbitrary: s)
  case Nil
  then show ?case by simp
next
  case (Cons t ts)
  have w: "wf_chain (apply_tx t s)" using Cons.prems by (rule wf_apply_tx)
  have m: "isCompleted (commitments s i) \<longrightarrow> isCompleted (commitments (apply_tx t s) i)"
    using signed_le_apply_tx[OF Cons.prems, of t i] by (simp add: signed_le_def)
  from Cons.IH[OF w] m show ?case by (auto split: if_splits)
qed

lemma flipsJustified_wf: "wf_chain s \<Longrightarrow> flipsJustified i txs s"
proof (induction txs arbitrary: s)
  case Nil
  then show ?case by simp
next
  case (Cons t ts)
  have w: "wf_chain (apply_tx t s)" using Cons.prems by (rule wf_apply_tx)
  then have "isCompleted (commitments (apply_tx t s) i) \<longrightarrow> allSigned (commitments (apply_tx t s) i)"
    by (simp add: wf_chain_def cinv_def commitment_ok_def)
  with Cons.IH[OF w] show ?case by simp
qed

lemma completedCount_le_1: "wf_chain s \<Longrightarrow> completedCount i (events s) \<le> 1"
  by (simp add: wf_chain_def cinv_def commitment_ok_def)

lemma counter_exec:
  "initialized s \<Longrightarrow> exec a t c s = Inr s' \<Longrightarrow>
   initialized s' \<and> commitmentIdCounter s \<le> commitmentIdCounter s'"
  by (cases c)
     (auto simp: initialize_def createCommitment_def signAsSigner_def signAsWitness_def
        freezeCommitment_def unfreezeCommitment_def verifyCommitment_def pause_def unpause_def
        grantRole_def revokeRole_def checkCompletion_def Let_def
        split: if_splits option.splits sum.splits)

lemma counter_apply_tx:
  "initialized s \<Longrightarrow> initialized (apply_tx tx s) \<and> commitmentIdCounter s \<le> commitmentIdCounter (apply_tx tx s)"
  by (cases tx) (auto split: sum.splits dest: counter_exec)

lemma createdIds_sorted:
  "initialized s \<Longrightarrow>
   sorted_wrt (<) (createdIds txs s) \<and> (\<forall>n \<in> set (createdIds txs s). commitmentIdCounter s < n)"
proof (induction txs arbitrary: s)
  case Nil
  then show ?case by simp
next
  case (Cons tx txs)
  obtain a t c where tx: "tx = (a, t, c)" by (cases tx)
  let ?s' = "apply_tx (a, t, c) s"
  from counter_apply_tx[OF Cons.prems, of "(a, t, c)"]
  have i': "initialized ?s'" and le: "commitmentIdCounter s \<le> commitmentIdCounter ?s'" by simp_all
  from Cons.IH[OF i'] have srt: "sorted_wrt (<) (createdIds txs ?s')"
    and gt: "\<forall>n \<in> set (createdIds txs ?s'). commitmentIdCounter ?s' < n" by simp_all
  show ?case
  proof (cases "\<exists>fh sg ws n s1. c = CreateCommitment fh sg ws \<and> createCommitment a t fh sg ws s = Inr (n, s1)")
    case True
    then obtain fh sg ws n s1 where c: "c = CreateCommitment fh sg ws"
      and r: "createCommitment a t fh sg ws s = Inr (n, s1)" by blast
    from createCommitment_Inr[OF r] have n: "n = commitmentIdCounter s + 1"
      and "commitmentIdCounter s1 = n" by simp_all
    moreover have "?s' = s1" using c r by simp
    ultimately have "commitmentIdCounter ?s' = n" by simp
    with gt have "\<forall>m \<in> set (createdIds txs ?s'). n < m" by simp
    moreover have "createdIds (tx # txs) s = n # createdIds txs ?s'"
      using tx c r by simp
    ultimately show ?thesis using srt gt n le by auto
  next
    case False
    then have "createdIds (tx # txs) s = createdIds txs ?s'"
      using tx by (auto split: call.splits sum.splits)
    then show ?thesis using srt gt le by auto
  qed
qed

lemma stored_iff_valid:
  "wf_chain s \<Longrightarrow> (commitments s i \<noteq> zeroCommitment) = validCommitmentId i s"
  by (auto simp: wf_chain_def cinv_def zeroCommitment_def)

lemma valid_idC: "wf_chain s \<Longrightarrow> validCommitmentId i s \<Longrightarrow> idC (commitments s i) = i"
  by (simp add: wf_chain_def cinv_def)

section \<open>The claims\<close>

subsection \<open>C1: completion happens at most once\<close>

text \<open>
  Claim C1. Along every run from the initialised registry and for every commitment id:
  \<^verbatim>\<open>isCompleted\<close> goes from false to true in at most one transaction; a transaction in
  which it does leaves \<^verbatim>\<open>initiatorSigned\<close> and \<^verbatim>\<open>signerSigned\<close> set and
  \<^verbatim>\<open>witnessSignedCount\<close> equal to the length of the witness list; and the log holds at
  most one \<^verbatim>\<open>CommitmentCompleted\<close> event with that id. The source has no test of
  \<^verbatim>\<open>isCompleted\<close> in \<^verbatim>\<open>_checkCompletion\<close>; the property holds because no signing call can
  succeed on a completed commitment.
\<close>

theorem completion_at_most_once:
  "completionFlips i txs (genesis admin) \<le> 1
   \<and> flipsJustified i txs (genesis admin)
   \<and> completedCount i (events (run txs (genesis admin))) \<le> 1"
  using completionFlips_bound[OF wf_genesis, of i txs admin] flipsJustified_wf[OF wf_genesis]
    completedCount_le_1[OF wf_run[OF wf_genesis]]
  by (auto split: if_splits)

text \<open>
  In the example run the fourth transaction completes commitment 1: one transition, one event.
\<close>

theorem completion_at_most_once_witness:
  "completionFlips 1 demo_txs (genesis 1) = 1
   \<and> flipsJustified 1 demo_txs (genesis 1)
   \<and> completedCount 1 (events (run demo_txs (genesis 1))) = 1
   \<and> \<not> isCompleted (commitments (run (take 3 demo_txs) (genesis 1)) 1)
   \<and> isCompleted (commitments (run demo_txs (genesis 1)) 1)
   \<and> allSigned (commitments (run demo_txs (genesis 1)) 1)"
  using completion_at_most_once [of 1 demo_txs 1]
  by (simp add: demo_txs_def eval_defs)

subsection \<open>C2: creation, the originator role and the pause\<close>

text \<open>
  Claim C2 says that \<^verbatim>\<open>createCommitment\<close> succeeds only for a caller with
  \<^verbatim>\<open>POLICE_ROLE\<close> and only while the registry is not paused. In the source the modifiers
  \<^verbatim>\<open>onlyRole(POLICE_ROLE)\<close> and \<^verbatim>\<open>whenNotPaused\<close> of \<^verbatim>\<open>createCommitment\<close> are inside a
  comment. Evaluated on a paused registry, for account 7, which holds no role: the call
  succeeds and returns id 1, and \<^verbatim>\<open>getCommitment\<close> then returns the new record.
\<close>

theorem create_ignores_role_and_pause:
  "paused (run paused_txs (genesis 1))
   \<and> \<not> hasRole POLICE_ROLE 7 (run paused_txs (genesis 1))
   \<and> map_sum id fst (createCommitment 7 12 ''h'' 3 [] (run paused_txs (genesis 1))) = Inr 1
   \<and> map_sum id idC (getCommitment 1
        (apply_tx (7, 12, CreateCommitment ''h'' 3 []) (run paused_txs (genesis 1)))) = Inr 1"
  by (simp add: paused_txs_def eval_defs)

subsection \<open>C3: a frozen commitment\<close>

text \<open>
  Claim C3. While \<^verbatim>\<open>isFrozen\<close> of a commitment is true, \<^verbatim>\<open>signAsSigner\<close> and
  \<^verbatim>\<open>signAsWitness\<close> on it fail and the transaction leaves the storage as it was;
  \<^verbatim>\<open>freezeCommitment\<close> fails on a frozen commitment and \<^verbatim>\<open>unfreezeCommitment\<close> fails on
  one that is not frozen; and when one of the two succeeds, the storage after it is the
  storage before it with \<^verbatim>\<open>isFrozen\<close> of that one commitment written and one event appended
  to the log.
\<close>

theorem frozen_rejects_signing_freeze_frame:
  "(isFrozen (commitments s cid) \<longrightarrow>
      isl (signAsSigner a t cid s) \<and> apply_tx (a, t, SignAsSigner cid) s = s
    \<and> isl (signAsWitness a t cid s) \<and> apply_tx (a, t, SignAsWitness cid) s = s
    \<and> isl (freezeCommitment a t cid s))
   \<and> (\<not> isFrozen (commitments s cid) \<longrightarrow> isl (unfreezeCommitment a t cid s))
   \<and> (\<forall>s'. freezeCommitment a t cid s = Inr s' \<longrightarrow>
         s' = s\<lparr>commitments := (commitments s)(cid := (commitments s cid)\<lparr>isFrozen := True\<rparr>),
                events := events s @ [CommitmentFrozen cid a t]\<rparr>)
   \<and> (\<forall>s'. unfreezeCommitment a t cid s = Inr s' \<longrightarrow>
         s' = s\<lparr>commitments := (commitments s)(cid := (commitments s cid)\<lparr>isFrozen := False\<rparr>),
                events := events s @ [CommitmentUnfrozen cid a t]\<rparr>)"
  by (auto simp: signAsSigner_def signAsWitness_def freezeCommitment_def unfreezeCommitment_def
        notFrozen_def Let_def split: if_splits)

text \<open>
  In the example run commitment 1 is frozen: both signing calls fail with the frozen error.
\<close>

theorem frozen_rejects_signing_freeze_frame_witness:
  "isFrozen (commitments (run frozen_txs (genesis 1)) 1)
   \<and> signAsSigner 3 12 1 (run frozen_txs (genesis 1)) = Inl CommitmentIsFrozen
   \<and> signAsWitness 4 12 1 (run frozen_txs (genesis 1)) = Inl CommitmentIsFrozen
   \<and> apply_tx (3, 12, SignAsSigner 1) (run frozen_txs (genesis 1)) = run frozen_txs (genesis 1)
   \<and> apply_tx (4, 12, SignAsWitness 1) (run frozen_txs (genesis 1)) = run frozen_txs (genesis 1)
   \<and> freezeCommitment 9 12 1 (run frozen_txs (genesis 1)) = Inl AlreadyFrozen
   \<and> \<not> isFrozen (commitments (run (take 1 frozen_txs) (genesis 1)) 1)
   \<and> unfreezeCommitment 9 12 1 (run (take 1 frozen_txs) (genesis 1)) = Inl NotFrozen
   \<and> \<not> isl (freezeCommitment 9 11 1 (run (take 1 frozen_txs) (genesis 1)))
   \<and> \<not> isl (unfreezeCommitment 9 12 1 (run frozen_txs (genesis 1)))"
  using frozen_rejects_signing_freeze_frame [of "run frozen_txs (genesis 1)" 1 3 12]
    frozen_rejects_signing_freeze_frame [of "run (take 1 frozen_txs) (genesis 1)" 1 9 12]
  by (simp add: frozen_txs_def eval_defs)

subsection \<open>C4: verification and the verifier role\<close>

text \<open>
  Claim C4 says that \<^verbatim>\<open>verifyCommitment\<close> is restricted to a caller with
  \<^verbatim>\<open>VERIFIER_ROLE\<close>. In the source the modifier \<^verbatim>\<open>onlyRole(VERIFIER_ROLE)\<close> of
  \<^verbatim>\<open>verifyCommitment\<close> is inside a comment. Evaluated on the completed commitment of the
  example run, for account 9, which holds no role: the call succeeds and sets
  \<^verbatim>\<open>isVerified\<close>.
\<close>

theorem verify_ignores_verifier_role:
  "\<not> hasRole VERIFIER_ROLE 9 (run demo_txs (genesis 1))
   \<and> isCompleted (commitments (run demo_txs (genesis 1)) 1)
   \<and> map_sum id (\<lambda>s'. isVerified (commitments s' 1))
        (verifyCommitment 9 20 1 (run demo_txs (genesis 1))) = Inr True"
  by (simp add: demo_txs_def eval_defs)

subsection \<open>C5: the initiator as a witness\<close>

text \<open>
  Claim C5 says that \<^verbatim>\<open>createCommitment\<close> rejects a witness list that contains the
  caller. In the source the \<^verbatim>\<open>require\<close> that compares each witness with \<^verbatim>\<open>msg.sender\<close>
  is inside a comment. Evaluated for caller 2 with the witness list \<open>[2]\<close>: the call
  succeeds, returns id 1 and stores a commitment whose initiator is its only witness.
\<close>

theorem create_accepts_initiator_as_witness:
  "map_sum id (\<lambda>(n, s'). (n, witnesses (commitments s' n), initiator (commitments s' n)))
     (createCommitment 2 10 ''h'' 3 [2] (genesis 1)) = Inr (1, [2], 2)"
  by (simp add: eval_defs)

subsection \<open>C6: the checks of creation\<close>

text \<open>
  Claim C6. \<^verbatim>\<open>createCommitment\<close> fails when the file hash is empty, when the signer is
  the zero address, when the signer is the caller, when a witness is the zero address, when
  a witness is the signer, and when the witness list has a repeated entry; each of these
  alone suffices, and the failed transaction leaves the storage as it was.
\<close>

theorem create_rejects_invalid_input:
  "fh = [] \<or> sg = 0 \<or> sg = sender \<or> 0 \<in> set ws \<or> sg \<in> set ws \<or> \<not> distinct ws \<Longrightarrow>
   isl (createCommitment sender now fh sg ws s)
   \<and> apply_tx (sender, now, CreateCommitment fh sg ws) s = s"
proof -
  assume h: "fh = [] \<or> sg = 0 \<or> sg = sender \<or> 0 \<in> set ws \<or> sg \<in> set ws \<or> \<not> distinct ws"
  have "fh = [] \<or> sg = 0 \<or> sg = sender \<or> checkWitnesses sg ws \<noteq> None"
    using h by (auto simp: checkWitnesses_None)
  then have "isl (createCommitment sender now fh sg ws s)"
    by (auto simp: createCommitment_def split: option.splits)
  then show ?thesis by (auto simp: isl_def)
qed

text \<open>
  One input for each of the six checks, and a well-formed input that is accepted.
\<close>

theorem create_rejects_invalid_input_witness:
  "createCommitment 2 10 [] 3 [4] (genesis 1) = Inl FileHashEmpty
   \<and> createCommitment 2 10 ''h'' 0 [4] (genesis 1) = Inl InvalidSignerAddress
   \<and> createCommitment 2 10 ''h'' 2 [4] (genesis 1) = Inl SignerCannotBeInitiator
   \<and> createCommitment 2 10 ''h'' 3 [4, 0] (genesis 1) = Inl InvalidWitnessAddress
   \<and> createCommitment 2 10 ''h'' 3 [4, 3] (genesis 1) = Inl WitnessCannotBeSigner
   \<and> createCommitment 2 10 ''h'' 3 [4, 5, 4] (genesis 1) = Inl DuplicateWitnessAddress
   \<and> apply_tx (2, 10, CreateCommitment ''h'' 3 [4, 5, 4]) (genesis 1) = genesis 1
   \<and> \<not> isl (createCommitment 2 10 ''h'' 3 [4, 5] (genesis 1))"
  using create_rejects_invalid_input [of "''h''" 3 2 "[4, 5, 4]" 10 "genesis 1"]
  by (simp add: eval_defs)

subsection \<open>C7: signatures are never taken back\<close>

text \<open>
  Claim C7. Let \<open>s\<close> be reachable from the initialised registry and \<open>s'\<close> be reachable
  from \<open>s\<close>. For every commitment id, each of \<^verbatim>\<open>initiatorSigned\<close>, \<^verbatim>\<open>signerSigned\<close>, the
  signed flag of every witness, \<^verbatim>\<open>isCompleted\<close> and \<^verbatim>\<open>isVerified\<close> that is true in
  \<open>s\<close> is true in \<open>s'\<close>; \<^verbatim>\<open>witnessSignedCount\<close> in \<open>s'\<close> is at least its value in
  \<open>s\<close> and at most the length of the witness list.
\<close>

theorem signatures_monotonic:
  "s = run pre (genesis admin) \<Longrightarrow> s' = run txs s \<Longrightarrow>
     (initiatorSigned (commitments s i) \<longrightarrow> initiatorSigned (commitments s' i))
   \<and> (signerSigned (commitments s i) \<longrightarrow> signerSigned (commitments s' i))
   \<and> (witnessSigned s i w \<longrightarrow> witnessSigned s' i w)
   \<and> (isCompleted (commitments s i) \<longrightarrow> isCompleted (commitments s' i))
   \<and> (isVerified (commitments s i) \<longrightarrow> isVerified (commitments s' i))
   \<and> witnessSignedCount (commitments s i) \<le> witnessSignedCount (commitments s' i)
   \<and> witnessSignedCount (commitments s' i) \<le> length (witnesses (commitments s' i))"
proof -
  assume s: "s = run pre (genesis admin)" and s': "s' = run txs s"
  have w: "wf_chain s" unfolding s by (rule wf_run[OF wf_genesis])
  then have w': "wf_chain s'" unfolding s' by (rule wf_run)
  have "signed_le s s' i" unfolding s' using w by (rule signed_le_run)
  then show ?thesis using count_le_length[OF w', of i] by (simp add: signed_le_def)
qed

text \<open>
  The example run, cut after its third transaction.
\<close>

theorem signatures_monotonic_witness:
  "initiatorSigned (commitments (run (take 3 demo_txs) (genesis 1)) 1)
   \<and> initiatorSigned (commitments (run (drop 3 demo_txs) (run (take 3 demo_txs) (genesis 1))) 1)
   \<and> signerSigned (commitments (run (take 3 demo_txs) (genesis 1)) 1)
   \<and> signerSigned (commitments (run (drop 3 demo_txs) (run (take 3 demo_txs) (genesis 1))) 1)
   \<and> witnessSigned (run (take 3 demo_txs) (genesis 1)) 1 4
   \<and> witnessSigned (run (drop 3 demo_txs) (run (take 3 demo_txs) (genesis 1))) 1 4
   \<and> witnessSignedCount (commitments (run (take 3 demo_txs) (genesis 1)) 1) = 1
   \<and> witnessSignedCount (commitments (run (drop 3 demo_txs) (run (take 3 demo_txs) (genesis 1))) 1) = 2
   \<and> length (witnesses (commitments (run (drop 3 demo_txs) (run (take 3 demo_txs) (genesis 1))) 1)) = 2"
  using signatures_monotonic [where pre = "take 3 demo_txs" and admin = 1 and txs = "drop 3 demo_txs" and i = 1 and w = 4,
      OF refl refl]
  by (simp add: demo_txs_def eval_defs)

subsection \<open>C8: ids\<close>

text \<open>
  Claim C8. The ids returned by the successful \<^verbatim>\<open>createCommitment\<close> calls of a run from
  the initialised registry are positive and strictly increasing in the order of the calls,
  hence pairwise different, whatever other transactions, failed creations among them,
  lie between.
\<close>

theorem created_ids_increasing:
  "sorted_wrt (<) (createdIds txs (genesis admin))
   \<and> (\<forall>n \<in> set (createdIds txs (genesis admin)). 0 < n)
   \<and> distinct (createdIds txs (genesis admin))"
proof -
  have i: "initialized (genesis admin)" by (simp add: genesis_def)
  from createdIds_sorted[OF i, of txs]
  have s: "sorted_wrt (<) (createdIds txs (genesis admin))"
    and p: "\<forall>n \<in> set (createdIds txs (genesis admin)). 0 < n" by auto
  from s have "distinct (createdIds txs (genesis admin))"
    by (simp add: strict_sorted_iff)
  with s p show ?thesis by simp
qed

text \<open>
  Two successful creations with a failed one and a signature between them return 1 and 2.
\<close>

theorem created_ids_increasing_witness:
  "createdIds [(2, 10, CreateCommitment ''h'' 3 [4]),
               (2, 11, CreateCommitment [] 3 [4]),
               (3, 12, SignAsSigner 1),
               (7, 13, CreateCommitment ''g'' 3 [])] (genesis 1) = [1, 2]
   \<and> sorted_wrt (<) [1, 2 :: nat] \<and> distinct [1, 2 :: nat]"
  using created_ids_increasing [of "[(2, 10, CreateCommitment ''h'' 3 [4]),
               (2, 11, CreateCommitment [] 3 [4]),
               (3, 12, SignAsSigner 1),
               (7, 13, CreateCommitment ''g'' 3 [])]" 1]
  by (simp add: eval_defs)

subsection \<open>C9: valid ids\<close>

text \<open>
  Claim C9 says that every entry point guarded by \<^verbatim>\<open>validCommitmentId\<close> rejects an id that
  is 0 or greater than \<^verbatim>\<open>commitmentCount()\<close> with the invalid-id failure. \<^verbatim>\<open>signAsSigner\<close>
  lists \<^verbatim>\<open>whenNotPaused\<close> before \<^verbatim>\<open>validCommitmentId\<close>: on a paused registry it fails on
  id 0 with the failure of the pause check.
\<close>

theorem invalid_id_failure_counterexample:
  "commitmentCount (run paused_txs (genesis 1)) = 0
   \<and> signAsSigner 3 12 0 (run paused_txs (genesis 1)) = Inl EnforcedPause
   \<and> signAsSigner 3 12 0 (run paused_txs (genesis 1)) \<noteq> Inl InvalidCommitmentId"
  by (simp add: paused_txs_def eval_defs)

text \<open>
  Claim C9, amended. In every state reachable from the initialised registry: an id passes
  \<^verbatim>\<open>validCommitmentId\<close> exactly when it lies between 1 and \<^verbatim>\<open>commitmentCount()\<close>, and
  exactly then the mapping holds a record other than the zero record at it; the record at
  such an id carries that id; and for every other id the four guarded queries,
  \<^verbatim>\<open>signAsWitness\<close>, \<^verbatim>\<open>freezeCommitment\<close>, \<^verbatim>\<open>unfreezeCommitment\<close> and
  \<^verbatim>\<open>verifyCommitment\<close> fail with the invalid-id failure, and so does \<^verbatim>\<open>signAsSigner\<close>
  unless the registry is paused, in which case it fails with the failure of the pause
  check.
\<close>

theorem valid_ids_contiguous:
  "s = run txs (genesis admin) \<Longrightarrow>
     (validCommitmentId i s \<longleftrightarrow> 1 \<le> i \<and> i \<le> commitmentCount s)
   \<and> (commitments s i \<noteq> zeroCommitment \<longleftrightarrow> 1 \<le> i \<and> i \<le> commitmentCount s)
   \<and> (1 \<le> i \<and> i \<le> commitmentCount s \<longrightarrow> idC (commitments s i) = i)
   \<and> (\<not> (1 \<le> i \<and> i \<le> commitmentCount s) \<longrightarrow>
         getCommitment i s = Inl InvalidCommitmentId
       \<and> hasWitnessSigned i w s = Inl InvalidCommitmentId
       \<and> getRole i a s = Inl InvalidCommitmentId
       \<and> getWitnessCount i s = Inl InvalidCommitmentId
       \<and> signAsWitness a t i s = Inl InvalidCommitmentId
       \<and> freezeCommitment a t i s = Inl InvalidCommitmentId
       \<and> unfreezeCommitment a t i s = Inl InvalidCommitmentId
       \<and> verifyCommitment a t i s = Inl InvalidCommitmentId
       \<and> signAsSigner a t i s = Inl (if paused s then EnforcedPause else InvalidCommitmentId))"
proof -
  assume s: "s = run txs (genesis admin)"
  have w: "wf_chain s" unfolding s by (rule wf_run[OF wf_genesis])
  have v: "validCommitmentId i s \<longleftrightarrow> 1 \<le> i \<and> i \<le> commitmentCount s"
    by (auto simp: validCommitmentId_def commitmentCount_def)
  show ?thesis
    unfolding stored_iff_valid[OF w] v[symmetric]
    using valid_idC[OF w, of i]
    by (simp add: getCommitment_def hasWitnessSigned_def getRole_def getWitnessCount_def
          signAsWitness_def freezeCommitment_def unfreezeCommitment_def verifyCommitment_def
          signAsSigner_def)
qed

text \<open>
  After the example run id 1 is valid and id 2 is not.
\<close>

theorem valid_ids_contiguous_witness:
  "commitmentCount (run demo_txs (genesis 1)) = 1
   \<and> validCommitmentId 1 (run demo_txs (genesis 1))
   \<and> idC (commitments (run demo_txs (genesis 1)) 1) = 1
   \<and> commitments (run demo_txs (genesis 1)) 1 \<noteq> zeroCommitment
   \<and> \<not> validCommitmentId 2 (run demo_txs (genesis 1))
   \<and> commitments (run demo_txs (genesis 1)) 2 = zeroCommitment
   \<and> getCommitment 2 (run demo_txs (genesis 1)) = Inl InvalidCommitmentId
   \<and> signAsSigner 3 20 2 (run demo_txs (genesis 1)) = Inl InvalidCommitmentId
   \<and> verifyCommitment 3 20 2 (run demo_txs (genesis 1)) = Inl InvalidCommitmentId"
  using valid_ids_contiguous [where txs = demo_txs and admin = 1 and i = 1 and w = 4 and a = 3 and t = 20, OF refl]
    valid_ids_contiguous [where txs = demo_txs and admin = 1 and i = 2 and w = 4 and a = 3 and t = 20, OF refl]
  by (simp add: demo_txs_def eval_defs)

subsection \<open>C10: verification of a frozen commitment\<close>

text \<open>
  Claim C10. For a valid id whose commitment is completed and not yet verified,
  \<^verbatim>\<open>verifyCommitment\<close> succeeds and sets \<^verbatim>\<open>isVerified\<close>, whatever the value of
  \<^verbatim>\<open>isFrozen\<close>, which it leaves as it was.
\<close>

theorem verify_not_blocked_by_freeze:
  "validCommitmentId cid s \<Longrightarrow> isCompleted (commitments s cid) \<Longrightarrow>
   \<not> isVerified (commitments s cid) \<Longrightarrow>
   \<exists>s'. verifyCommitment a t cid s = Inr s' \<and> isVerified (commitments s' cid)
        \<and> isFrozen (commitments s' cid) = isFrozen (commitments s cid)"
  by (simp add: verifyCommitment_def Let_def)

text \<open>
  The example run followed by a freeze: the completed, frozen commitment is verified.
\<close>

theorem verify_not_blocked_by_freeze_witness:
  "validCommitmentId 1 (run (demo_txs @ [(9, 14, FreezeCommitment 1)]) (genesis 1))
   \<and> isCompleted (commitments (run (demo_txs @ [(9, 14, FreezeCommitment 1)]) (genesis 1)) 1)
   \<and> \<not> isVerified (commitments (run (demo_txs @ [(9, 14, FreezeCommitment 1)]) (genesis 1)) 1)
   \<and> isFrozen (commitments (run (demo_txs @ [(9, 14, FreezeCommitment 1)]) (genesis 1)) 1)
   \<and> (\<exists>s'. verifyCommitment 8 15 1 (run (demo_txs @ [(9, 14, FreezeCommitment 1)]) (genesis 1)) = Inr s'
          \<and> isVerified (commitments s' 1)
          \<and> isFrozen (commitments s' 1)
              = isFrozen (commitments (run (demo_txs @ [(9, 14, FreezeCommitment 1)]) (genesis 1)) 1))"
proof -
  let ?s = "run (demo_txs @ [(9, 14, FreezeCommitment 1)]) (genesis 1)"
  have v: "validCommitmentId 1 ?s" by (simp add: demo_txs_def eval_defs)
  have c: "isCompleted (commitments ?s 1)" by (simp add: demo_txs_def eval_defs)
  have n: "\<not> isVerified (commitments ?s 1)" by (simp add: demo_txs_def eval_defs)
  have f: "isFrozen (commitments ?s 1)" by (simp add: demo_txs_def eval_defs)
  from verify_not_blocked_by_freeze [OF v c n, of 8 15] v c n f show ?thesis by blast
qed

end
